theory Spec2Isabelle
  imports Complex_Main
begin

section \<open>SIM-KB: similarity, retrieval, chunking, indexing and document listing\<close>

text \<open>
  The repository documents a small knowledge base: SQLite tables, an embedding index, a
  cosine-similarity search and a set of lookup tools. Of the Python modules only
  fragments are present, quoted in TECHNICAL_FLOW.md and in the change log of
  USER_GUIDE.md; the tables are in schema.sql. This theory embeds
  \<^item> \<open>cosine_similarity\<close> (TECHNICAL_FLOW.md, "Cosine Similarity Calculation"), in IEEE 754
    binary64 arithmetic, which is what a Python float is;
  \<^item> the \<open>embeddings\<close>, \<open>organizations\<close>, \<open>documents\<close> and \<open>document_org_links\<close> tables
    (schema.sql) and the query of the tool \<open>get_carrier_documents\<close>.
  The chunker, the indexer, the ranking step of \<open>semantic_search\<close> and the result of
  \<open>get_carrier_documents\<close> live in \<open>semantic_search.py\<close>, \<open>index_documents.py\<close> and
  \<open>llm_navigator.py\<close>, which are not among the sources; they are modelled from their
  written description and marked as such. The retrieval model ranks exact (real) scores.
\<close>

subsection \<open>Cosine similarity over the reals\<close>

text \<open>The exceptions a call can raise: \<open>ZeroDivisionError\<close> from the division,
  \<open>ValueError\<close> from \<open>math.sqrt\<close> of a negative number.\<close>

datatype py_exception = ZeroDivisionError | ValueError

text \<open>The same function in exact arithmetic, as the retrieval model below uses it: the
  components and the scores are real numbers, and the only failure is the division by
  zero. The function on Python floats is \<open>cosine_similarity_f64\<close> further down.\<close>

type_synonym vector = "real list"




subsection \<open>Python floats: binary64 arithmetic\<close>

text \<open>
  A Python float is an IEEE 754 binary64 value: a finite number \<open>m * 2 ^ e\<close> with an
  integer \<open>\<bar>m\<bar> < 2 ^ 53\<close> and \<open>- 1074 \<le> e \<le> 971\<close>, an infinity, or a NaN. The sign of a
  zero is not kept: \<open>- 0.0\<close> and \<open>0.0\<close> compare equal, divide alike in Python (both raise)
  and differ in nothing this function is asked about. The vectors are lists of floats;
  a list that holds Python ints is outside the model (an int too large for a float makes
  the arithmetic raise \<open>OverflowError\<close>). The type does not require the number under
  \<open>Fin\<close> to be representable: the operations round their results, the theorems hold for
  every real there, and the examples use zero, small integers and powers of two.
\<close>

datatype binary64 = Fin real | PInf | NInf | NaN

text \<open>Rounding to the nearest integer, a tie going to the even one.\<close>

definition round_half_even :: "real \<Rightarrow> int" where
  "round_half_even q =
     (let f = \<lfloor>q\<rfloor>; d = q - of_int f
      in if d < 1 / 2 then f else if 1 / 2 < d then f + 1 else if even f then f else f + 1)"

text \<open>The exponent of the last place of the binary64 numbers next to \<open>x\<close>: 52 binary
  places below the leading bit, and never below the subnormal spacing \<open>2 ^ - 1074\<close>.\<close>

definition quantum_exponent :: "real \<Rightarrow> int" where
  "quantum_exponent x = max (\<lfloor>log 2 \<bar>x\<bar>\<rfloor> - 52) (- 1074)"

text \<open>Round to nearest, ties to even, the rounding of every binary64 operation: the exact
  result goes to the nearest multiple of its quantum, and a magnitude that reaches
  \<open>2 ^ 1024\<close> after rounding is an overflow to infinity.\<close>

definition round_binary64 :: "real \<Rightarrow> binary64" where
  "round_binary64 x =
     (if x = 0 then Fin 0
      else
        let e = quantum_exponent x;
            y = of_int (round_half_even (x / 2 powr of_int e)) * 2 powr of_int e
        in if 2 ^ 1024 \<le> y then PInf else if y \<le> - (2 ^ 1024) then NInf else Fin y)"

text \<open>\<^verbatim>\<open>a * b\<close> on floats: never raises; infinity times zero is NaN.\<close>

fun fmul :: "binary64 \<Rightarrow> binary64 \<Rightarrow> binary64" where
  "fmul (Fin a) (Fin b) = round_binary64 (a * b)"
| "fmul (Fin a) PInf = (if a = 0 then NaN else if 0 < a then PInf else NInf)"
| "fmul (Fin a) NInf = (if a = 0 then NaN else if 0 < a then NInf else PInf)"
| "fmul PInf (Fin b) = (if b = 0 then NaN else if 0 < b then PInf else NInf)"
| "fmul NInf (Fin b) = (if b = 0 then NaN else if 0 < b then NInf else PInf)"
| "fmul PInf PInf = PInf"
| "fmul PInf NInf = NInf"
| "fmul NInf PInf = NInf"
| "fmul NInf NInf = PInf"
| "fmul NaN y = NaN"
| "fmul x NaN = NaN"

text \<open>\<^verbatim>\<open>a + b\<close> on floats: never raises; infinity minus infinity is NaN.\<close>

fun fadd :: "binary64 \<Rightarrow> binary64 \<Rightarrow> binary64" where
  "fadd (Fin a) (Fin b) = round_binary64 (a + b)"
| "fadd (Fin a) PInf = PInf"
| "fadd (Fin a) NInf = NInf"
| "fadd PInf (Fin b) = PInf"
| "fadd NInf (Fin b) = NInf"
| "fadd PInf PInf = PInf"
| "fadd PInf NInf = NaN"
| "fadd NInf PInf = NaN"
| "fadd NInf NInf = NInf"
| "fadd NaN y = NaN"
| "fadd x NaN = NaN"

text \<open>\<^verbatim>\<open>a / b\<close> on floats: Python raises \<open>ZeroDivisionError\<close> when the divisor compares equal
  to zero, whatever the dividend (a NaN or an infinity too), and divides as IEEE 754 does
  otherwise; a NaN divisor is not zero and gives NaN.\<close>

fun fdiv :: "binary64 \<Rightarrow> binary64 \<Rightarrow> py_exception + binary64" where
  "fdiv (Fin a) (Fin b) = (if b = 0 then Inl ZeroDivisionError else Inr (round_binary64 (a / b)))"
| "fdiv PInf (Fin b) = (if b = 0 then Inl ZeroDivisionError else if 0 < b then Inr PInf else Inr NInf)"
| "fdiv NInf (Fin b) = (if b = 0 then Inl ZeroDivisionError else if 0 < b then Inr NInf else Inr PInf)"
| "fdiv NaN (Fin b) = (if b = 0 then Inl ZeroDivisionError else Inr NaN)"
| "fdiv (Fin a) PInf = Inr (Fin 0)"
| "fdiv (Fin a) NInf = Inr (Fin 0)"
| "fdiv PInf PInf = Inr NaN"
| "fdiv PInf NInf = Inr NaN"
| "fdiv NInf PInf = Inr NaN"
| "fdiv NInf NInf = Inr NaN"
| "fdiv NaN PInf = Inr NaN"
| "fdiv NaN NInf = Inr NaN"
| "fdiv x NaN = Inr NaN"

text \<open>\<^verbatim>\<open>math.sqrt(x)\<close>: the correctly rounded square root; \<open>ValueError\<close> for a negative
  argument, minus infinity included; NaN for NaN.\<close>

fun fsqrt :: "binary64 \<Rightarrow> py_exception + binary64" where
  "fsqrt (Fin a) = (if a < 0 then Inl ValueError else Inr (round_binary64 (sqrt a)))"
| "fsqrt PInf = Inr PInf"
| "fsqrt NInf = Inl ValueError"
| "fsqrt NaN = Inr NaN"

text \<open>\<^verbatim>\<open>x == y\<close> on floats: a NaN equals nothing, itself included.\<close>

fun float_eq :: "binary64 \<Rightarrow> binary64 \<Rightarrow> bool" where
  "float_eq NaN y = False"
| "float_eq x NaN = False"
| "float_eq x y = (x = y)"

text \<open>
  The built-in \<open>sum\<close> starts from the int \<open>0\<close> and adds the items in order. How it rounds
  depends on the interpreter: CPython up to 3.11 rounds after every addition
  (\<open>sequential_sum\<close>), CPython from 3.12 on carries a compensation term. The summation is
  therefore a parameter \<open>fsum\<close> of the functions below. Both versions return zero for a
  list of zeros, the empty list included (\<open>sums_zeros\<close>), and the item itself for a list
  of one item.
\<close>

definition sequential_sum :: "binary64 list \<Rightarrow> binary64" where
  "sequential_sum xs = foldl fadd (Fin 0) xs"

definition sums_zeros :: "(binary64 list \<Rightarrow> binary64) \<Rightarrow> bool" where
  "sums_zeros fsum = (\<forall>zs. (\<forall>z \<in> set zs. z = Fin 0) \<longrightarrow> fsum zs = Fin 0)"

subsection \<open>Cosine similarity on floats\<close>

text \<open>
  \<^verbatim>\<open>def cosine_similarity(vec1, vec2):
      dot_product = sum(a * b for a, b in zip(vec1, vec2))
      magnitude1 = math.sqrt(sum(a * a for a in vec1))
      magnitude2 = math.sqrt(sum(b * b for b in vec2))
      return dot_product / (magnitude1 * magnitude2)\<close>
\<close>

text \<open>\<^verbatim>\<open>sum(a * a for a in vec)\<close>\<close>

definition sum_squares :: "(binary64 list \<Rightarrow> binary64) \<Rightarrow> binary64 list \<Rightarrow> binary64" where
  "sum_squares fsum vec = fsum (map (\<lambda>a. fmul a a) vec)"

text \<open>\<^verbatim>\<open>sum(a * b for a, b in zip(vec1, vec2))\<close>; \<open>zip\<close> stops at the shorter vector.\<close>

definition dot_product_f64 ::
  "(binary64 list \<Rightarrow> binary64) \<Rightarrow> binary64 list \<Rightarrow> binary64 list \<Rightarrow> binary64" where
  "dot_product_f64 fsum vec1 vec2 = fsum (map (\<lambda>(a, b). fmul a b) (zip vec1 vec2))"

text \<open>\<^verbatim>\<open>math.sqrt(sum(a * a for a in vec))\<close>\<close>

definition magnitude_f64 ::
  "(binary64 list \<Rightarrow> binary64) \<Rightarrow> binary64 list \<Rightarrow> py_exception + binary64" where
  "magnitude_f64 fsum vec = fsqrt (sum_squares fsum vec)"

text \<open>The whole function, in the order of the source: the dot product, the two magnitudes,
  then the unguarded division.\<close>

definition cosine_similarity_f64 ::
  "(binary64 list \<Rightarrow> binary64) \<Rightarrow> binary64 list \<Rightarrow> binary64 list \<Rightarrow> py_exception + binary64" where
  "cosine_similarity_f64 fsum vec1 vec2 =
     (let dot = dot_product_f64 fsum vec1 vec2
      in case magnitude_f64 fsum vec1 of
           Inl e \<Rightarrow> Inl e
         | Inr magnitude1 \<Rightarrow>
             (case magnitude_f64 fsum vec2 of
                Inl e \<Rightarrow> Inl e
              | Inr magnitude2 \<Rightarrow> fdiv dot (fmul magnitude1 magnitude2)))"

subsection \<open>The embeddings table\<close>

text \<open>
  \<^verbatim>\<open>CREATE TABLE embeddings (id INTEGER PRIMARY KEY AUTOINCREMENT, entity_type TEXT NOT NULL,
  entity_id INTEGER NOT NULL, chunk_index INTEGER DEFAULT 0, chunk_text TEXT NOT NULL,
  embedding_vector TEXT, created_at TIMESTAMP)\<close>.
  The vector column holds a JSON array of floats; the model keeps the parsed list. The
  timestamp is left out. The table declares no uniqueness over
  \<open>(entity_type, entity_id, chunk_index)\<close>.
\<close>

record embedding_row =
  emb_id :: nat
  entity_type :: string
  entity_id :: nat
  chunk_index :: nat
  chunk_text :: string
  embedding_vector :: vector

record embeddings_table =
  emb_rows :: "embedding_row list"
  emb_next_id :: nat

text \<open>A plain \<open>INSERT\<close>: the row gets the next id of the AUTOINCREMENT counter and is
  appended, whatever rows the table already holds.\<close>

definition insert_embedding ::
  "embeddings_table \<Rightarrow> string \<Rightarrow> nat \<Rightarrow> nat \<Rightarrow> string \<Rightarrow> vector \<Rightarrow> embeddings_table" where
  "insert_embedding t ety eid idx txt vec =
     \<lparr>emb_rows = emb_rows t @
        [\<lparr>emb_id = emb_next_id t, entity_type = ety, entity_id = eid, chunk_index = idx,
          chunk_text = txt, embedding_vector = vec\<rparr>],
      emb_next_id = Suc (emb_next_id t)\<rparr>"

subsection \<open>Semantic search: rank and filter\<close>

text \<open>
  The body of \<open>semantic_search\<close> (semantic_search.py) is missing from the sources. Its
  steps are written down in TECHNICAL_FLOW.md ("Path B", steps 1 to 3) and in the
  specification: embed the query; compute the cosine similarity between the query vector
  and every stored chunk vector; sort by similarity, highest first; keep only similarity
  above the threshold 0.5; return the top \<open>limit\<close> results.
\<close>





subsection \<open>Chunker\<close>

text \<open>Modelled from the spec: the character budget of the missing chunking function
  ("Break document into 1000-char chunks").\<close>

definition chunk_size :: nat where
  "chunk_size = 1000"

text \<open>Modelled from the spec: the overlap of the missing chunking function ("200-char
  overlap between chunks").\<close>

definition chunk_overlap :: nat where
  "chunk_overlap = 200"

text \<open>
  Modelled from the spec: the chunking function (semantic_search.py) is missing. The
  written description is: windows of a fixed character budget (1000) with a fixed overlap
  (200) between consecutive windows, in source order; a very short document gives a
  single chunk; and the worked example of TECHNICAL_FLOW.md, where a document of 3000
  characters gives the chunks \<open>0-1000\<close>, \<open>800-1800\<close>, \<open>1600-2600\<close>, \<open>2400-3000\<close>.
  So a window starts every \<open>1000 - 200 = 800\<close> characters and the window that reaches the
  end of the text is the last one.
\<close>

function chunker :: "string \<Rightarrow> string list" where
  "chunker text =
     (if length text \<le> chunk_size then [text]
      else take chunk_size text # chunker (drop (chunk_size - chunk_overlap) text))"
  by pat_completeness auto
termination
  by (relation "measure length") (auto simp: chunk_size_def chunk_overlap_def)

declare chunker.simps [simp del]

subsection \<open>Embedding indexer\<close>

text \<open>
  The indexing batch (index_documents.py) is missing from the sources. The specification
  says: for each document, chunk its text, call the embedding provider once per chunk and
  store one row keyed by (entity_type, entity_id, chunk_index, chunk_text); re-indexing a
  document that already has embeddings replaces its prior chunks; a chunk whose embedding
  fails after the retries is skipped, the batch goes on.
\<close>

text \<open>Modelled from the spec: the removal of a document's prior rows by the missing
  indexer ("should replace, not append, its prior chunks").\<close>

definition delete_embeddings :: "embeddings_table \<Rightarrow> string \<Rightarrow> nat \<Rightarrow> embeddings_table" where
  "delete_embeddings t ety eid =
     t\<lparr>emb_rows := filter (\<lambda>r. \<not> (entity_type r = ety \<and> entity_id r = eid)) (emb_rows t)\<rparr>"

text \<open>Modelled from the spec: the loop of the missing indexer over the chunks of one
  document, one provider call and one inserted row per chunk, the chunk index counting
  from \<open>i\<close>. The provider is a parameter that returns \<open>None\<close> for a chunk it gave up on;
  that chunk is skipped. The rows carry the entity type \<open>documents\<close>, as the comment in
  schema.sql has it.\<close>

fun insert_chunks ::
  "(string \<Rightarrow> vector option) \<Rightarrow> nat \<Rightarrow> nat \<Rightarrow> string list \<Rightarrow> embeddings_table \<Rightarrow> embeddings_table" where
  "insert_chunks provider d i [] t = t"
| "insert_chunks provider d i (c # cs) t =
     (case provider c of
        None \<Rightarrow> insert_chunks provider d (Suc i) cs t
      | Some v \<Rightarrow> insert_chunks provider d (Suc i) cs (insert_embedding t ''documents'' d i c v))"

text \<open>Modelled from the spec: the missing indexer on one document (its id and its text):
  drop the prior rows, chunk, embed and store.\<close>

definition index_document ::
  "(string \<Rightarrow> vector option) \<Rightarrow> embeddings_table \<Rightarrow> nat \<times> string \<Rightarrow> embeddings_table" where
  "index_document provider t doc =
     insert_chunks provider (fst doc) 0 (chunker (snd doc))
       (delete_embeddings t ''documents'' (fst doc))"

text \<open>Modelled from the spec: the missing indexing batch, every document in turn.\<close>

definition index_documents ::
  "(string \<Rightarrow> vector option) \<Rightarrow> embeddings_table \<Rightarrow> (nat \<times> string) list \<Rightarrow> embeddings_table" where
  "index_documents provider t docs = foldl (index_document provider) t docs"

text \<open>The rows the table holds for one document.\<close>

definition document_rows :: "nat \<Rightarrow> embeddings_table \<Rightarrow> embedding_row list" where
  "document_rows d t =
     filter (\<lambda>r. entity_type r = ''documents'' \<and> entity_id r = d) (emb_rows t)"

subsection \<open>Tables and the document listing\<close>













subsection \<open>Auxiliary definitions for the proofs\<close>



text \<open>What a call with a zero vector gives, from the magnitude computed for the other
  vector: the division by zero when that magnitude is a finite number, NaN when it is an
  infinity or a NaN (zero times either is NaN, which is not zero), and the exception of
  the square root when that raised.\<close>

definition zero_vector_outcome :: "py_exception + binary64 \<Rightarrow> py_exception + binary64" where
  "zero_vector_outcome other_magnitude =
     (case other_magnitude of
        Inl e \<Rightarrow> Inl e
      | Inr (Fin b) \<Rightarrow> Inl ZeroDivisionError
      | Inr PInf \<Rightarrow> Inr NaN
      | Inr NInf \<Rightarrow> Inr NaN
      | Inr NaN \<Rightarrow> Inr NaN)"

subsection \<open>Example data\<close>




definition demo_text :: string where
  "demo_text = replicate 900 CHR ''a'' @ replicate 900 CHR ''b'' @ replicate 400 CHR ''c''"


text \<open>Two float components whose squares leave the binary64 range: \<open>2.0 ** 600\<close> and
  \<open>2.0 ** -600\<close>.\<close>

definition huge_component :: real where
  "huge_component = 2 ^ 600"

definition tiny_component :: real where
  "tiny_component = 1 / 2 ^ 600"

definition demo_provider :: "string \<Rightarrow> vector option" where
  "demo_provider c = Some [1, 0]"

text \<open>A table that already holds two chunk rows of document 7 and one of document 8.\<close>

definition demo_table :: embeddings_table where
  "demo_table =
     \<lparr>emb_rows =
        [\<lparr>emb_id = 1, entity_type = ''documents'', entity_id = 7, chunk_index = 0,
          chunk_text = ''old text, first chunk'', embedding_vector = [0, 1]\<rparr>,
         \<lparr>emb_id = 2, entity_type = ''documents'', entity_id = 7, chunk_index = 1,
          chunk_text = ''old text, second chunk'', embedding_vector = [0, 1]\<rparr>,
         \<lparr>emb_id = 3, entity_type = ''documents'', entity_id = 8, chunk_index = 0,
          chunk_text = ''another document'', embedding_vector = [1, 1]\<rparr>],
      emb_next_id = 4\<rparr>"

section \<open>Properties\<close>

subsection \<open>Rounding to binary64\<close>

text \<open>Rounding to the nearest integer is off by at most one half, and exact on integers.\<close>

lemma round_half_even_error: "\<bar>of_int (round_half_even q) - q\<bar> \<le> 1 / 2"
  unfolding round_half_even_def Let_def by (auto; linarith)

lemma round_half_even_of_int: "round_half_even (of_int n) = n"
  by (simp add: round_half_even_def)

lemma round_binary64_zero: "round_binary64 0 = Fin 0"
  by (simp add: round_binary64_def)

text \<open>Powers of two: one within the exponent range rounds to itself, one at or beyond
  \<open>2 ^ 1024\<close> overflows to infinity, and one below a quarter of the smallest subnormal
  rounds to zero.\<close>

lemma two_powr_int_ge: "0 \<le> k \<Longrightarrow> (2::real) powr of_int k = 2 ^ nat k"
proof -
  assume k: "0 \<le> k"
  have "(2::real) powr real (nat k) = 2 ^ nat k"
    by (rule powr_realpow) simp
  moreover have "real (nat k) = of_int k" using k by simp
  ultimately show "(2::real) powr of_int k = 2 ^ nat k" by (simp only:)
qed

lemma quantum_exponent_pow2:
  "quantum_exponent (2 powr of_int k) = max (k - 52) (- 1074)"
proof -
  have "\<bar>(2::real) powr of_int k\<bar> = 2 powr of_int k" by (rule abs_of_pos) simp
  moreover have "log 2 (2 powr of_int k) = of_int k" by (rule log_powr_cancel) simp_all
  ultimately have "\<lfloor>log 2 \<bar>(2::real) powr of_int k\<bar>\<rfloor> = k" by (simp only: floor_of_int)
  then show ?thesis unfolding quantum_exponent_def by (simp only:)
qed

lemma powr_quotient: "(2::real) powr of_int k / 2 powr of_int e = 2 powr of_int (k - e)"
proof -
  have "(2::real) powr (of_int k - of_int e) = 2 powr of_int k / 2 powr of_int e"
    by (rule powr_diff)
  then show ?thesis by (simp only: of_int_diff)
qed

lemma round_binary64_pow2:
  assumes "- 1074 \<le> k"
  shows "round_binary64 (2 powr of_int k) = (if 1024 \<le> k then PInf else Fin (2 powr of_int k))"
proof -
  define e where "e = max (k - 52) (- 1074)"
  define x :: real where "x = 2 powr of_int k"
  have xpos: "0 < x" by (simp add: x_def)
  have ke: "0 \<le> k - e" using assms by (simp add: e_def)
  have q: "x / 2 powr of_int e = of_int (2 ^ nat (k - e))"
    unfolding x_def powr_quotient using two_powr_int_ge [OF ke] by simp
  have "of_int (round_half_even (x / 2 powr of_int e)) * 2 powr of_int e
        = (x / 2 powr of_int e) * 2 powr of_int e"
    by (simp only: q round_half_even_of_int)
  also have "\<dots> = x" by simp
  finally have y: "of_int (round_half_even (x / 2 powr of_int e)) * 2 powr of_int e = x" .
  have "(2::real) ^ 1024 = 2 powr of_int 1024"
    using two_powr_int_ge [of 1024] by simp
  then have big: "(2 ^ 1024 \<le> x) = (1024 \<le> k)"
    unfolding x_def by (simp only: powr_le_cancel_iff) simp
  have neg: "\<not> x \<le> - (2 ^ 1024)"
    using xpos by (smt (verit) zero_less_power)
  have qe: "quantum_exponent x = e"
    unfolding x_def e_def by (rule quantum_exponent_pow2)
  have "round_binary64 x = (if 1024 \<le> k then PInf else Fin x)"
    unfolding round_binary64_def Let_def qe y using xpos big neg by simp
  then show ?thesis unfolding x_def .
qed

lemma round_binary64_tiny:
  assumes "k \<le> - 1076"
  shows "round_binary64 (2 powr of_int k) = Fin 0"
proof -
  define x :: real where "x = 2 powr of_int k"
  define q :: real where "q = x / 2 powr of_int (- 1074 :: int)"
  have xpos: "0 < x" by (simp add: x_def)
  have qe: "quantum_exponent x = - 1074"
    unfolding x_def using assms by (simp add: quantum_exponent_pow2)
  have "q = 2 powr of_int (k - (- 1074))"
    unfolding q_def x_def by (rule powr_quotient)
  also have "\<dots> \<le> 2 powr of_int (- 2)"
    using assms by simp
  also have "\<dots> = 1 / 4"
    by (simp add: powr_minus_divide)
  finally have q4: "q \<le> 1 / 4" .
  have q0: "0 < q" unfolding q_def using xpos by simp
  have fl: "\<lfloor>q\<rfloor> = 0" using q4 q0 by (simp add: floor_eq_iff)
  have "round_half_even q = 0"
    unfolding round_half_even_def Let_def fl using q4 by simp
  then have "of_int (round_half_even q) * 2 powr of_int (- 1074 :: int) = (0::real)"
    by simp
  then have "round_binary64 x = Fin 0"
    unfolding round_binary64_def Let_def qe q_def [symmetric] using xpos by simp
  then show ?thesis unfolding x_def .
qed


lemma round_binary64_one: "round_binary64 1 = Fin 1"
  using round_binary64_pow2 [of 0] by simp

lemma round_binary64_two: "round_binary64 2 = Fin 2"
  using round_binary64_pow2 [of 1] by simp

lemma round_binary64_four: "round_binary64 4 = Fin 4"
  using round_binary64_pow2 [of 2] by simp

text \<open>The relative error of one rounding in the normal range is at most the unit
  roundoff \<open>2 ^ - 53\<close>.\<close>

lemma round_binary64_rel_error:
  assumes lo: "2 powr (- 1022) \<le> \<bar>x\<bar>" and hi: "\<bar>x\<bar> \<le> 2 powr 1023"
  shows "\<exists>y. round_binary64 x = Fin y \<and> \<bar>y - x\<bar> \<le> 2 powr (- 53) * \<bar>x\<bar>"
proof -
  have xpos: "0 < \<bar>x\<bar>"
    using lo by (smt (verit) powr_gt_zero)
  then have x0: "x \<noteq> 0" by simp
  define k where "k = \<lfloor>log 2 \<bar>x\<bar>\<rfloor>"
  have kb: "2 powr of_int k \<le> \<bar>x\<bar>"
    using floor_log_eq_powr_iff [of "\<bar>x\<bar>" 2 k] xpos by (simp add: k_def)
  have "of_int (- 1022 :: int) \<le> log 2 \<bar>x\<bar>"
    using lo xpos by (simp add: le_log_iff)
  then have k_lo: "- 1022 \<le> k"
    unfolding k_def by (simp only: le_floor_iff)
  define e where "e = k - 52"
  have qe: "quantum_exponent x = e"
    unfolding quantum_exponent_def e_def k_def [symmetric] using k_lo by simp
  define p :: real where "p = 2 powr of_int e"
  have ppos: "0 < p" by (simp add: p_def)
  define n where "n = round_half_even (x / p)"
  define y where "y = of_int n * p"
  have "\<bar>of_int n - x / p\<bar> \<le> 1 / 2"
    unfolding n_def by (rule round_half_even_error)
  then have "\<bar>of_int n - x / p\<bar> * p \<le> 1 / 2 * p"
    using ppos by (simp only: mult_le_cancel_right_pos)
  moreover have "\<bar>of_int n - x / p\<bar> * p = \<bar>y - x\<bar>"
  proof -
    have "\<bar>of_int n - x / p\<bar> * p = \<bar>(of_int n - x / p) * p\<bar>"
      using ppos by (simp add: abs_mult)
    also have "(of_int n - x / p) * p = y - x"
      using ppos by (simp add: y_def field_simps)
    finally show ?thesis .
  qed
  ultimately have err: "\<bar>y - x\<bar> \<le> 1 / 2 * p" by simp
  have "1 / 2 * p = 2 powr (- 53) * 2 powr of_int k"
  proof -
    have "2 powr (- 53) * 2 powr of_int k = (2::real) powr (- 53 + of_int k)"
      by (simp only: powr_add)
    also have "- 53 + of_int k = (- 1) + real_of_int e"
      by (simp add: e_def)
    also have "(2::real) powr (- 1 + real_of_int e) = 2 powr (- 1) * p"
      unfolding p_def by (simp only: powr_add)
    also have "(2::real) powr (- 1) = 1 / 2"
      by (simp add: powr_minus_divide)
    finally show ?thesis by simp
  qed
  also have "\<dots> \<le> 2 powr (- 53) * \<bar>x\<bar>"
    using kb by simp
  finally have half: "1 / 2 * p \<le> 2 powr (- 53) * \<bar>x\<bar>" .
  have rel: "\<bar>y - x\<bar> \<le> 2 powr (- 53) * \<bar>x\<bar>"
    using err half by linarith
  have small: "(2::real) powr (- 53) \<le> 1 / 2"
  proof -
    have a: "(2::real) powr (- 53) \<le> 2 powr (- 1)" by (rule powr_mono) simp_all
    have b: "(2::real) powr (- 1) = 1 / 2" by (simp add: powr_minus_divide)
    from a b show ?thesis by (simp only:)
  qed
  have "\<bar>y\<bar> \<le> \<bar>x\<bar> + \<bar>y - x\<bar>" by linarith
  also have "\<dots> \<le> \<bar>x\<bar> + 2 powr (- 53) * \<bar>x\<bar>" using rel by simp
  also have "\<dots> \<le> \<bar>x\<bar> + 1 / 2 * \<bar>x\<bar>"
  proof -
    have "2 powr (- 53) * \<bar>x\<bar> \<le> 1 / 2 * \<bar>x\<bar>"
      by (rule mult_right_mono [OF small]) simp
    then show ?thesis by linarith
  qed
  also have "\<dots> \<le> 2 powr 1023 + 1 / 2 * 2 powr 1023"
    using hi by simp
  also have "\<dots> < 2 * 2 powr 1023" by simp
  also have "\<dots> = 2 ^ 1024"
  proof -
    have "(2::real) powr 1023 = 2 ^ 1023"
      using powr_realpow [of "2::real" 1023] by simp
    then show ?thesis by simp
  qed
  finally have ybound: "\<bar>y\<bar> < 2 ^ 1024" .
  have "round_binary64 x = Fin y"
    unfolding round_binary64_def Let_def qe p_def [symmetric] n_def [symmetric] y_def [symmetric]
    using x0 ybound by (simp add: abs_less_iff)
  then show ?thesis using rel by blast
qed


lemma unit_roundoff: "(2::real) powr (- 53) = 1 / 2 ^ 53"
proof -
  have "(2::real) powr (- 53) = 1 / 2 powr 53" by (simp only: powr_minus_divide)
  moreover have "(2::real) powr 53 = 2 ^ 53"
    using powr_realpow [of "2::real" 53] by simp
  ultimately show ?thesis by (simp only:)
qed

lemma powr_numeral_bounds:
  "(2::real) powr (- 1022) \<le> 2 powr (- 1000) / 4" "(4::real) * 2 powr 1000 \<le> 2 powr 1023"
  "(2::real) powr (- 1022) \<le> 1 / 8" "(8::real) \<le> 2 powr 1023"
proof -
  have four: "(4::real) = 2 powr 2" and eight: "(8::real) = 2 powr 3"
    using powr_realpow [of "2::real" 2] powr_realpow [of "2::real" 3] by simp_all
  have a: "(2::real) powr (- 1000) / 2 powr 2 = 2 powr (- 1000 - 2)"
    by (simp only: powr_diff)
  have "(2::real) powr (- 1022) \<le> 2 powr (- 1000 - 2)"
    by (rule powr_mono) simp_all
  then show "(2::real) powr (- 1022) \<le> 2 powr (- 1000) / 4"
    by (simp only: a [symmetric] four [symmetric])
  have b: "(2::real) powr 2 * 2 powr 1000 = 2 powr (2 + 1000)"
    by (simp only: powr_add)
  have "(2::real) powr (2 + 1000) \<le> 2 powr 1023"
    by (rule powr_mono) simp_all
  then show "(4::real) * 2 powr 1000 \<le> 2 powr 1023"
    by (simp only: b [symmetric] four [symmetric])
  have c: "(1::real) / 2 powr 3 = 2 powr (- 3)"
    by (simp only: powr_minus_divide)
  have "(2::real) powr (- 1022) \<le> 2 powr (- 3)"
    by (rule powr_mono) simp_all
  then show "(2::real) powr (- 1022) \<le> 1 / 8"
    by (simp only: c [symmetric] eight [symmetric])
  have "(2::real) powr 3 \<le> 2 powr 1023"
    by (rule powr_mono) simp_all
  then show "(8::real) \<le> 2 powr 1023"
    by (simp only: eight [symmetric])
qed

lemma sqrt_two_powr: "sqrt (2 powr a) = 2 powr (a / 2)"
proof -
  have "sqrt (2 powr a) = (2 powr a) powr (1 / 2)"
    by (rule powr_half_sqrt [symmetric]) simp
  also have "\<dots> = 2 powr (a * (1 / 2))" by (rule powr_powr)
  finally show ?thesis by simp
qed

lemma sqrt_range:
  assumes "2 powr (- 1000) \<le> d" "d \<le> 2 powr 1000"
  shows "2 powr (- 1022) \<le> sqrt d" "sqrt d \<le> 2 powr 1023"
proof -
  have "2 powr (- 1022) \<le> (2::real) powr (- 1000 / 2)"
    by (rule powr_mono) simp_all
  also have "\<dots> = sqrt (2 powr (- 1000))" by (simp only: sqrt_two_powr)
  also have "\<dots> \<le> sqrt d" by (rule real_sqrt_le_mono [OF assms(1)])
  finally show "2 powr (- 1022) \<le> sqrt d" .
  have "sqrt d \<le> sqrt (2 powr 1000)" by (rule real_sqrt_le_mono [OF assms(2)])
  also have "\<dots> = 2 powr (1000 / 2)" by (simp only: sqrt_two_powr)
  also have "\<dots> \<le> 2 powr 1023" by (rule powr_mono) simp_all
  finally show "sqrt d \<le> 2 powr 1023" .
qed

lemma round_binary64_pos:
  assumes "2 powr (- 1022) \<le> x" "x \<le> 2 powr 1023"
  shows "\<exists>y. round_binary64 x = Fin y \<and> (1 - 1 / 2 ^ 53) * x \<le> y \<and> y \<le> (1 + 1 / 2 ^ 53) * x"
proof -
  define c :: real where "c = 1 / 2 ^ 53"
  have xpos: "0 < x" using assms(1) by (smt (verit) powr_gt_zero)
  then have ax: "\<bar>x\<bar> = x" by simp
  obtain y where y: "round_binary64 x = Fin y" "\<bar>y - x\<bar> \<le> 2 powr (- 53) * \<bar>x\<bar>"
    using round_binary64_rel_error [of x] assms ax by auto
  then have "\<bar>y - x\<bar> \<le> c * x"
    by (simp only: unit_roundoff ax c_def)
  then have "x - c * x \<le> y \<and> y \<le> x + c * x"
    by linarith
  then have "(1 - c) * x \<le> y \<and> y \<le> (1 + c) * x"
    by (simp only: left_diff_distrib distrib_right mult_1)
  then show ?thesis using y(1) unfolding c_def by blast
qed


subsection \<open>Cosine similarity on floats\<close>

text \<open>The product of floats is commutative, so both argument orders sum the same list of
  products and divide by the same product of magnitudes.\<close>

lemma fmul_commute: "fmul x y = fmul y x"
  by (cases x; cases y) (simp_all add: mult.commute)

lemma fsqrt_exception: "fsqrt x = Inl e \<Longrightarrow> e = ValueError"
  by (cases x) (auto split: if_splits)

lemma products_commute:
  "map (\<lambda>(a, b). fmul a b) (zip xs ys) = map (\<lambda>(a, b). fmul a b) (zip ys xs)"
  by (induction xs ys rule: list_induct2') (simp_all add: fmul_commute)

lemma dot_product_f64_commute: "dot_product_f64 fsum a b = dot_product_f64 fsum b a"
  unfolding dot_product_f64_def by (simp only: products_commute)

lemma cosine_similarity_f64_commute:
  "cosine_similarity_f64 fsum a b = cosine_similarity_f64 fsum b a"
proof (cases "magnitude_f64 fsum a")
  case (Inl e)
  then have e: "e = ValueError" unfolding magnitude_f64_def by (rule fsqrt_exception)
  show ?thesis
  proof (cases "magnitude_f64 fsum b")
    case (Inl e')
    then have "e' = ValueError" unfolding magnitude_f64_def by (rule fsqrt_exception)
    then show ?thesis using \<open>magnitude_f64 fsum a = Inl e\<close> Inl e
      by (simp add: cosine_similarity_f64_def)
  next
    case (Inr m)
    then show ?thesis using \<open>magnitude_f64 fsum a = Inl e\<close>
      by (simp add: cosine_similarity_f64_def)
  qed
next
  case (Inr m1)
  show ?thesis
  proof (cases "magnitude_f64 fsum b")
    case (Inl e')
    then show ?thesis using Inr by (simp add: cosine_similarity_f64_def)
  next
    case (Inr m2)
    then show ?thesis using \<open>magnitude_f64 fsum a = Inr m1\<close>
      by (simp add: cosine_similarity_f64_def dot_product_f64_commute [of fsum a b]
          fmul_commute [of m1 m2])
  qed
qed

lemma float_eq_refl: "x \<noteq> NaN \<Longrightarrow> float_eq x x"
  by (cases x) simp_all

lemma dot_product_f64_self: "dot_product_f64 fsum v v = sum_squares fsum v"
proof -
  have "map (\<lambda>(a, b). fmul a b) (zip v v) = map (\<lambda>a. fmul a a) v"
    by (induction v) simp_all
  then show ?thesis by (simp only: dot_product_f64_def sum_squares_def)
qed

text \<open>A vector with itself: the square root, the product of the two magnitudes and the
  quotient are one rounding each, whatever the summation returned, so the result is
  within \<open>(1 + u) / (1 - u) ^ 3\<close> of 1 for the unit roundoff \<open>u\<close>. The bounds on the sum of
  squares keep all three operations in the normal range.\<close>

lemma self_similarity_bound:
  assumes d: "sum_squares fsum v = Fin d" and lo: "2 powr (- 1000) \<le> d" and hi: "d \<le> 2 powr 1000"
  shows "\<exists>r. cosine_similarity_f64 fsum v v = Inr (Fin r) \<and> \<bar>r - 1\<bar> \<le> 2 powr (- 50)"
proof -
  define A :: real where "A = 1 - 1 / 2 ^ 53"
  define B :: real where "B = 1 + 1 / 2 ^ 53"
  have A: "0 < A" "1 / 2 \<le> A" "A \<le> 1" and B: "0 < B" "1 \<le> B" "B \<le> 2"
    by (simp_all add: A_def B_def)
  have dpos: "0 < d" using lo by (smt (verit) powr_gt_zero)
  define s where "s = sqrt d"
  have spos: "0 < s" and ss: "s * s = d" using dpos by (simp_all add: s_def)
  obtain m where m: "round_binary64 s = Fin m" "A * s \<le> m" "m \<le> B * s"
    using round_binary64_pos [of s] sqrt_range [OF lo hi] unfolding s_def A_def B_def by blast
  have mpos: "0 < m" using m(2) A(1) spos by (smt (verit) mult_pos_pos)
  have mag: "magnitude_f64 fsum v = Inr (Fin m)"
    unfolding magnitude_f64_def d using dpos m(1) by (simp add: s_def)
  have mm_lo: "A * A * d \<le> m * m"
  proof -
    have "(A * s) * (A * s) \<le> m * m"
      using m(2) A(1) spos mpos by (intro mult_mono) simp_all
    then show ?thesis using ss by (simp add: algebra_simps)
  qed
  have mm_hi: "m * m \<le> B * B * d"
  proof -
    have "m * m \<le> (B * s) * (B * s)"
      using m(3) mpos by (intro mult_mono) simp_all
    then show ?thesis using ss by (simp add: algebra_simps)
  qed
  have AA: "1 / 4 \<le> A * A"
  proof -
    have "(1 / 2) * (1 / 2) \<le> A * A" using A(2) by (intro mult_mono) simp_all
    then show ?thesis by simp
  qed
  have BB: "B * B \<le> 4"
  proof -
    have "B * B \<le> 2 * 2" using B by (intro mult_mono) simp_all
    then show ?thesis by simp
  qed
  have mm_range: "2 powr (- 1022) \<le> m * m" "m * m \<le> 2 powr 1023"
  proof -
    have "(2::real) powr (- 1022) \<le> 2 powr (- 1000) / 4" by (rule powr_numeral_bounds)
    also have "\<dots> \<le> d / 4" using lo by simp
    also have "\<dots> = 1 / 4 * d" by simp
    also have "\<dots> \<le> A * A * d" using AA dpos by (intro mult_right_mono) simp_all
    also have "\<dots> \<le> m * m" by (rule mm_lo)
    finally show "2 powr (- 1022) \<le> m * m" .
    have "m * m \<le> B * B * d" by (rule mm_hi)
    also have "\<dots> \<le> 4 * d" using BB dpos by (intro mult_right_mono) simp_all
    also have "\<dots> \<le> 4 * 2 powr 1000" using hi by simp
    also have "\<dots> \<le> 2 powr 1023" by (rule powr_numeral_bounds)
    finally show "m * m \<le> 2 powr 1023" .
  qed
  obtain p where p: "round_binary64 (m * m) = Fin p" "A * (m * m) \<le> p" "p \<le> B * (m * m)"
    using round_binary64_pos [OF mm_range] unfolding A_def B_def by blast
  have p_lo: "A * A * A * d \<le> p"
  proof -
    have "A * (A * A * d) \<le> A * (m * m)" using mm_lo A(1) by (intro mult_left_mono) simp_all
    then show ?thesis using p(2) by (simp add: algebra_simps)
  qed
  have p_hi: "p \<le> B * B * B * d"
  proof -
    have "B * (m * m) \<le> B * (B * B * d)" using mm_hi B(1) by (intro mult_left_mono) simp_all
    then show ?thesis using p(3) by (simp add: algebra_simps)
  qed
  have A3: "0 < A * A * A" using A(1) by simp
  have B3: "0 < B * B * B" using B(1) by simp
  have ppos: "0 < p" using p_lo A3 dpos by (smt (verit) mult_pos_pos)
  define t where "t = d / p"
  have tpos: "0 < t" using dpos ppos by (simp add: t_def)
  have t_hi: "t \<le> 1 / (A * A * A)"
  proof -
    have "0 < p * (A * A * A * d)" using ppos A3 dpos by simp
    then have "d / p \<le> d / (A * A * A * d)"
      using p_lo dpos by (intro divide_left_mono) simp_all
    also have "\<dots> = 1 / (A * A * A)" using dpos by simp
    finally show ?thesis by (simp add: t_def)
  qed
  have t_lo: "1 / (B * B * B) \<le> t"
  proof -
    have "0 < B * B * B * d * p" using ppos B3 dpos by simp
    then have "d / (B * B * B * d) \<le> d / p"
      using p_hi dpos by (intro divide_left_mono) simp_all
    moreover have "d / (B * B * B * d) = 1 / (B * B * B)" using dpos by simp
    ultimately show ?thesis by (simp add: t_def)
  qed
  have A3_lo: "1 / 8 \<le> A * A * A"
  proof -
    have "(1 / 4) * (1 / 2) \<le> (A * A) * A" using AA A by (intro mult_mono) simp_all
    then show ?thesis by simp
  qed
  have B3_hi: "B * B * B \<le> 8"
  proof -
    have "(B * B) * B \<le> 4 * 2" using BB B by (intro mult_mono) simp_all
    then show ?thesis by simp
  qed
  have t_range: "2 powr (- 1022) \<le> t" "t \<le> 2 powr 1023"
  proof -
    have "1 / 8 \<le> 1 / (B * B * B)"
      using B3_hi B3 by (intro divide_left_mono) simp_all
    then show "2 powr (- 1022) \<le> t"
      using t_lo powr_numeral_bounds(3) by linarith
    have "1 / (A * A * A) \<le> 1 / (1 / 8)"
      using A3_lo A3 by (intro divide_left_mono) simp_all
    then have "t \<le> 8" using t_hi by simp
    then show "t \<le> 2 powr 1023" using powr_numeral_bounds(4) by linarith
  qed
  obtain r where r: "round_binary64 t = Fin r" "A * t \<le> r" "r \<le> B * t"
    using round_binary64_pos [OF t_range] unfolding A_def B_def by blast
  have divisor: "fmul (Fin m) (Fin m) = Fin p" using p(1) by simp
  have result: "cosine_similarity_f64 fsum v v = Inr (Fin r)"
    unfolding cosine_similarity_f64_def Let_def mag dot_product_f64_self d
    using divisor ppos r(1) by (simp add: t_def)
  have r_hi: "r \<le> B / (A * A * A)"
  proof -
    have "B * t \<le> B * (1 / (A * A * A))" using t_hi B(1) by (intro mult_left_mono) simp_all
    then show ?thesis using r(3) by simp
  qed
  have r_lo: "A / (B * B * B) \<le> r"
  proof -
    have "A * (1 / (B * B * B)) \<le> A * t" using t_lo A(1) by (intro mult_left_mono) simp_all
    then show ?thesis using r(2) by simp
  qed
  have eps: "(2::real) powr (- 50) = 1 / 2 ^ 50"
  proof -
    have "(2::real) powr (- 50) = 1 / 2 powr 50" by (simp only: powr_minus_divide)
    moreover have "(2::real) powr 50 = 2 ^ 50"
      using powr_realpow [of "2::real" 50] by simp
    ultimately show ?thesis by (simp only:)
  qed
  have num_hi: "B / (A * A * A) \<le> 1 + 1 / 2 ^ 50"
    unfolding A_def B_def by (simp add: field_simps)
  have num_lo: "1 - 1 / 2 ^ 50 \<le> A / (B * B * B)"
    unfolding A_def B_def by (simp add: field_simps)
  have "\<bar>r - 1\<bar> \<le> 1 / 2 ^ 50"
    using r_hi r_lo num_hi num_lo by (simp only: abs_le_iff) linarith
  then show ?thesis using result eps by auto
qed


text \<open>The division raises for a zero divisor and for nothing else; zero times a float is
  zero for a finite float and NaN otherwise.\<close>

lemma fdiv_zero_division: "fdiv x y = Inl e \<longleftrightarrow> y = Fin 0 \<and> e = ZeroDivisionError"
  by (cases x; cases y) (auto split: if_splits)

lemma fdiv_nan: "fdiv x NaN = Inr NaN"
  by (cases x) simp_all

lemma fmul_zero:
  "fmul (Fin 0) y = (case y of Fin b \<Rightarrow> Fin 0 | PInf \<Rightarrow> NaN | NInf \<Rightarrow> NaN | NaN \<Rightarrow> NaN)"
  by (cases y) (simp_all add: round_binary64_zero)

text \<open>Sums and similarities of the example vectors, with the built-in sum that rounds
  after every addition.\<close>

lemma sequential_sum_zeros: "sums_zeros sequential_sum"
proof -
  have "foldl fadd (Fin 0) zs = Fin 0" if "\<forall>z \<in> set zs. z = Fin 0" for zs
    using that by (induction zs) (simp_all add: round_binary64_zero)
  then show ?thesis by (simp add: sums_zeros_def sequential_sum_def)
qed

lemma huge_component_powr: "huge_component = 2 powr of_int 600"
  using two_powr_int_ge [of 600] by (simp add: huge_component_def)

lemma tiny_component_powr: "tiny_component = 2 powr of_int (- 600)"
proof -
  have "tiny_component = 1 / 2 powr of_int 600"
    using huge_component_powr by (simp add: tiny_component_def huge_component_def)
  also have "\<dots> = 2 powr (- of_int 600)" by (simp only: powr_minus_divide)
  finally show ?thesis by simp
qed

lemma square_huge: "round_binary64 (huge_component * huge_component) = PInf"
proof -
  have "huge_component * huge_component = 2 powr (of_int 600 + of_int 600)"
    unfolding huge_component_powr by (simp only: powr_add)
  also have "\<dots> = 2 powr of_int 1200" by simp
  finally show ?thesis using round_binary64_pow2 [of 1200] by simp
qed

lemma square_tiny: "round_binary64 (tiny_component * tiny_component) = Fin 0"
proof -
  have "tiny_component * tiny_component = 2 powr (of_int (- 600) + of_int (- 600))"
    unfolding tiny_component_powr by (simp only: powr_add)
  also have "\<dots> = 2 powr of_int (- 1200)" by simp
  finally show ?thesis using round_binary64_tiny [of "- 1200"] by simp
qed

lemma demo_huge_self:
  "cosine_similarity_f64 sequential_sum [Fin huge_component] [Fin huge_component] = Inr NaN"
  by (simp add: cosine_similarity_f64_def magnitude_f64_def sum_squares_def dot_product_f64_def
        sequential_sum_def square_huge)

lemma demo_tiny_self:
  "cosine_similarity_f64 sequential_sum [Fin tiny_component] [Fin tiny_component]
     = Inl ZeroDivisionError"
  by (simp add: cosine_similarity_f64_def magnitude_f64_def sum_squares_def dot_product_f64_def
        sequential_sum_def square_tiny round_binary64_zero fdiv_zero_division)

lemma demo_one_two:
  "cosine_similarity_f64 sequential_sum [Fin 1] [Fin 2] = Inr (Fin 1)"
  by (simp add: cosine_similarity_f64_def magnitude_f64_def sum_squares_def dot_product_f64_def
        sequential_sum_def round_binary64_one round_binary64_two round_binary64_four)

lemma demo_ones_squares: "sum_squares sequential_sum [Fin 1, Fin 1] = Fin 2"
  by (simp add: sum_squares_def sequential_sum_def round_binary64_one round_binary64_two)

lemma demo_range: "(2::real) powr (- 1000) \<le> 2" "(2::real) \<le> 2 powr 1000"
proof -
  have "(2::real) powr (- 1000) \<le> 2 powr 1" by (rule powr_mono) simp_all
  then show "(2::real) powr (- 1000) \<le> 2" by simp
  have "(2::real) powr 1 \<le> 2 powr 1000" by (rule powr_mono) simp_all
  then show "(2::real) \<le> 2 powr 1000" by simp
qed

text \<open>
  Claim C9. On lists of Python floats the two argument orders give the same outcome, the
  same exception or the same float, for vectors of any lengths; and when that float is
  not NaN, Python's \<open>==\<close> between the two results holds. For a vector whose sum of squares,
  as the function computes it, is a float between \<open>2 ^ - 1000\<close> and \<open>2 ^ 1000\<close>, the
  similarity of the vector with itself is a float within \<open>2 ^ - 50\<close> of 1. The summation
  is any function, so both roundings of the built-in \<open>sum\<close> are covered.
\<close>

theorem cosine_similarity_f64_symmetric_self:
  "cosine_similarity_f64 fsum a b = cosine_similarity_f64 fsum b a
   \<and> (cosine_similarity_f64 fsum a b = Inr x \<and> x \<noteq> NaN \<longrightarrow>
        (\<exists>y. cosine_similarity_f64 fsum b a = Inr y \<and> float_eq x y))
   \<and> (sum_squares fsum v = Fin d \<and> 2 powr (- 1000) \<le> d \<and> d \<le> 2 powr 1000 \<longrightarrow>
        (\<exists>r. cosine_similarity_f64 fsum v v = Inr (Fin r) \<and> \<bar>r - 1\<bar> \<le> 2 powr (- 50)))"
proof (intro conjI impI)
  show "cosine_similarity_f64 fsum a b = cosine_similarity_f64 fsum b a"
    by (rule cosine_similarity_f64_commute)
next
  assume h: "cosine_similarity_f64 fsum a b = Inr x \<and> x \<noteq> NaN"
  then have "cosine_similarity_f64 fsum b a = Inr x"
    by (simp only: cosine_similarity_f64_commute [of fsum b a])
  moreover have "float_eq x x" using h by (simp add: float_eq_refl)
  ultimately show "\<exists>y. cosine_similarity_f64 fsum b a = Inr y \<and> float_eq x y" by blast
next
  assume "sum_squares fsum v = Fin d \<and> 2 powr (- 1000) \<le> d \<and> d \<le> 2 powr 1000"
  then show "\<exists>r. cosine_similarity_f64 fsum v v = Inr (Fin r) \<and> \<bar>r - 1\<bar> \<le> 2 powr (- 50)"
    using self_similarity_bound [of fsum v d] by blast
qed

theorem cosine_similarity_f64_symmetric_self_witness:
  "cosine_similarity_f64 sequential_sum [Fin 1] [Fin 2] = Inr (Fin 1)
   \<and> cosine_similarity_f64 sequential_sum [Fin 2] [Fin 1] = Inr (Fin 1)
   \<and> float_eq (Fin 1) (Fin 1)
   \<and> sum_squares sequential_sum [Fin 1, Fin 1] = Fin 2
   \<and> (\<exists>r. cosine_similarity_f64 sequential_sum [Fin 1, Fin 1] [Fin 1, Fin 1] = Inr (Fin r)
          \<and> \<bar>r - 1\<bar> \<le> 2 powr (- 50))"
  using cosine_similarity_f64_symmetric_self
    [of sequential_sum "[Fin 1]" "[Fin 2]" "Fin 1" "[Fin 1, Fin 1]" 2]
    demo_one_two demo_ones_squares demo_range
  by simp

text \<open>The claim as stated, "for every vector \<open>v\<close>", fails outside that range: a vector of
  zeros and a vector whose squares underflow raise \<open>ZeroDivisionError\<close>, and a vector whose
  squares overflow gives NaN, which is not near 1 and not \<open>==\<close> to itself.\<close>

theorem cosine_similarity_f64_self_counterexample:
  "cosine_similarity_f64 sequential_sum [Fin 0, Fin 0] [Fin 0, Fin 0] = Inl ZeroDivisionError
   \<and> cosine_similarity_f64 sequential_sum [Fin tiny_component] [Fin tiny_component]
       = Inl ZeroDivisionError
   \<and> cosine_similarity_f64 sequential_sum [Fin huge_component] [Fin huge_component] = Inr NaN
   \<and> \<not> float_eq NaN NaN"
  using demo_tiny_self demo_huge_self
  by (simp add: cosine_similarity_f64_def magnitude_f64_def sum_squares_def dot_product_f64_def
        sequential_sum_def round_binary64_zero)

text \<open>A vector of zeros has the magnitude zero, and the call with it is decided by the
  magnitude of the other vector.\<close>

lemma sum_squares_zero_vector:
  assumes "sums_zeros fsum" "\<forall>z \<in> set v. z = Fin 0"
  shows "sum_squares fsum v = Fin 0"
proof -
  have "\<forall>z \<in> set (map (\<lambda>a. fmul a a) v). z = Fin 0"
    using assms(2) by (auto simp: round_binary64_zero)
  then show ?thesis using assms(1) unfolding sums_zeros_def sum_squares_def by blast
qed

lemma magnitude_zero_vector:
  assumes "sums_zeros fsum" "\<forall>z \<in> set v. z = Fin 0"
  shows "magnitude_f64 fsum v = Inr (Fin 0)"
  unfolding magnitude_f64_def sum_squares_zero_vector [OF assms]
  by (simp add: round_binary64_zero)

lemma zero_vector_left:
  assumes "sums_zeros fsum" "\<forall>z \<in> set v1. z = Fin 0"
  shows "cosine_similarity_f64 fsum v1 v2 = zero_vector_outcome (magnitude_f64 fsum v2)"
proof (cases "magnitude_f64 fsum v2")
  case (Inl e)
  then show ?thesis
    by (simp add: cosine_similarity_f64_def magnitude_zero_vector [OF assms] zero_vector_outcome_def)
next
  case (Inr m2)
  then show ?thesis
    by (cases m2)
      (simp_all add: cosine_similarity_f64_def magnitude_zero_vector [OF assms]
        zero_vector_outcome_def round_binary64_zero fdiv_nan fdiv_zero_division)
qed

text \<open>
  Claim C10. The division has no guard. When both magnitudes are computed, the call raises
  \<open>ZeroDivisionError\<close> exactly when their float product is zero. With a vector of zeros on
  either side, and a summation that returns zero for zeros, the call never returns a
  number: it raises \<open>ZeroDivisionError\<close> when the magnitude computed for the other vector
  is finite, and returns NaN when that magnitude is infinite or NaN.
\<close>

theorem cosine_similarity_f64_zero_division:
  "(magnitude_f64 fsum vec1 = Inr m1 \<and> magnitude_f64 fsum vec2 = Inr m2 \<longrightarrow>
      (cosine_similarity_f64 fsum vec1 vec2 = Inl ZeroDivisionError) = (fmul m1 m2 = Fin 0))
   \<and> (sums_zeros fsum \<and> (\<forall>z \<in> set v. z = Fin 0) \<longrightarrow>
        cosine_similarity_f64 fsum v w = zero_vector_outcome (magnitude_f64 fsum w)
        \<and> cosine_similarity_f64 fsum w v = zero_vector_outcome (magnitude_f64 fsum w))"
proof (intro conjI impI)
  assume "magnitude_f64 fsum vec1 = Inr m1 \<and> magnitude_f64 fsum vec2 = Inr m2"
  then show "(cosine_similarity_f64 fsum vec1 vec2 = Inl ZeroDivisionError) = (fmul m1 m2 = Fin 0)"
    by (simp add: cosine_similarity_f64_def fdiv_zero_division)
next
  assume a: "sums_zeros fsum \<and> (\<forall>z \<in> set v. z = Fin 0)"
  then show "cosine_similarity_f64 fsum v w = zero_vector_outcome (magnitude_f64 fsum w)"
    by (simp add: zero_vector_left)
  from a show "cosine_similarity_f64 fsum w v = zero_vector_outcome (magnitude_f64 fsum w)"
    by (simp add: zero_vector_left cosine_similarity_f64_commute [of fsum w v])
qed

theorem cosine_similarity_f64_zero_division_witness:
  "magnitude_f64 sequential_sum [Fin tiny_component] = Inr (Fin 0)
   \<and> magnitude_f64 sequential_sum [Fin 1] = Inr (Fin 1)
   \<and> fmul (Fin 0) (Fin 1) = Fin 0
   \<and> cosine_similarity_f64 sequential_sum [Fin tiny_component] [Fin 1] = Inl ZeroDivisionError
   \<and> sums_zeros sequential_sum
   \<and> zero_vector_outcome (magnitude_f64 sequential_sum [Fin 1]) = Inl ZeroDivisionError
   \<and> cosine_similarity_f64 sequential_sum [Fin 0, Fin 0] [Fin 1] = Inl ZeroDivisionError
   \<and> cosine_similarity_f64 sequential_sum [Fin 1] [Fin 0, Fin 0] = Inl ZeroDivisionError"
proof -
  have m1: "magnitude_f64 sequential_sum [Fin tiny_component] = Inr (Fin 0)"
    by (simp add: magnitude_f64_def sum_squares_def sequential_sum_def square_tiny
          round_binary64_zero)
  have m2: "magnitude_f64 sequential_sum [Fin 1] = Inr (Fin 1)"
    by (simp add: magnitude_f64_def sum_squares_def sequential_sum_def round_binary64_one)
  have z: "fmul (Fin 0) (Fin 1) = Fin 0" by (simp add: round_binary64_zero)
  have o: "zero_vector_outcome (magnitude_f64 sequential_sum [Fin 1]) = Inl ZeroDivisionError"
    by (simp add: m2 zero_vector_outcome_def)
  show ?thesis
    using cosine_similarity_f64_zero_division
      [of sequential_sum "[Fin tiny_component]" "Fin 0" "[Fin 1]" "Fin 1" "[Fin 0, Fin 0]" "[Fin 1]"]
      m1 m2 z o sequential_sum_zeros
    by simp
qed

text \<open>The claim as stated, "for any zero vector the division-by-zero branch is reached",
  fails against a vector whose squares overflow: the divisor is zero times infinity, a
  NaN, and the call returns NaN without raising.\<close>

theorem cosine_similarity_f64_zero_vector_counterexample:
  "cosine_similarity_f64 sequential_sum [Fin 0] [Fin huge_component] = Inr NaN"
proof -
  have z: "fmul (Fin 0) (Fin huge_component) = Fin 0" by (simp add: round_binary64_zero)
  have zz: "fmul (Fin 0) (Fin 0) = Fin 0" by (simp add: round_binary64_zero)
  have n: "fmul (Fin 0) PInf = NaN" by simp
  show ?thesis
    by (simp add: cosine_similarity_f64_def magnitude_f64_def sum_squares_def dot_product_f64_def
        sequential_sum_def square_huge z zz n round_binary64_zero)
qed

subsection \<open>Semantic search\<close>
















subsection \<open>Chunker\<close>

lemma chunker_short: "length body \<le> chunk_size \<Longrightarrow> chunker body = [body]"
  by (simp add: chunker.simps)

lemma chunker_long:
  "chunk_size < length body \<Longrightarrow>
     chunker body = take chunk_size body # chunker (drop (chunk_size - chunk_overlap) body)"
  by (subst chunker.simps) simp

lemma chunker_not_Nil: "chunker body \<noteq> []"
  by (subst chunker.simps) simp

lemma chunker_nth:
  "i < length (chunker body) \<Longrightarrow>
     chunker body ! i = take chunk_size (drop ((chunk_size - chunk_overlap) * i) body)"
proof (induction body arbitrary: i rule: chunker.induct)
  case (1 body)
  show ?case
  proof (cases "length body \<le> chunk_size")
    case True
    then show ?thesis using "1.prems" by (simp add: chunker_short)
  next
    case False
    then have long: "chunk_size < length body" by simp
    show ?thesis
    proof (cases i)
      case 0
      then show ?thesis by (simp add: chunker_long [OF long])
    next
      case (Suc k)
      then have "k < length (chunker (drop (chunk_size - chunk_overlap) body))"
        using "1.prems" by (simp add: chunker_long [OF long])
      from "1.IH" [OF False this] show ?thesis
        using Suc by (simp add: chunker_long [OF long] add.commute)
    qed
  qed
qed

lemma chunker_length_bound:
  "Suc i < length (chunker body) \<Longrightarrow>
     (chunk_size - chunk_overlap) * i + chunk_size < length body"
proof (induction body arbitrary: i rule: chunker.induct)
  case (1 body)
  show ?case
  proof (cases "length body \<le> chunk_size")
    case True
    then show ?thesis using "1.prems" by (simp add: chunker_short)
  next
    case False
    then have long: "chunk_size < length body" by simp
    show ?thesis
    proof (cases i)
      case 0
      then show ?thesis using long by simp
    next
      case (Suc k)
      then have "Suc k < length (chunker (drop (chunk_size - chunk_overlap) body))"
        using "1.prems" by (simp add: chunker_long [OF long])
      from "1.IH" [OF False this] show ?thesis
        using Suc by simp
    qed
  qed
qed

lemma chunker_concat_drop:
  "concat (map (drop chunk_overlap) (chunker body)) = drop chunk_overlap body"
proof (induction body rule: chunker.induct)
  case (1 body)
  show ?case
  proof (cases "length body \<le> chunk_size")
    case True
    then show ?thesis by (simp add: chunker_short)
  next
    case False
    then have long: "chunk_size < length body" by simp
    have ov: "chunk_overlap \<le> chunk_size" by (simp add: chunk_overlap_def chunk_size_def)
    have "concat (map (drop chunk_overlap) (chunker body))
        = drop chunk_overlap (take chunk_size body)
          @ drop chunk_overlap (drop (chunk_size - chunk_overlap) body)"
      using "1.IH" [OF False] by (simp add: chunker_long [OF long])
    also have "\<dots> = drop chunk_overlap (take chunk_size body) @ drop chunk_size body"
      using ov by simp
    also have "\<dots> = drop chunk_overlap (take chunk_size body @ drop chunk_size body)"
      using ov long by (simp del: append_take_drop_id)
    finally show ?thesis by simp
  qed
qed

lemma chunker_reconstruct:
  "hd (chunker body) @ concat (map (drop chunk_overlap) (tl (chunker body))) = body"
proof (cases "length body \<le> chunk_size")
  case True
  then show ?thesis by (simp add: chunker_short)
next
  case False
  then have long: "chunk_size < length body" by simp
  have ov: "chunk_overlap \<le> chunk_size" by (simp add: chunk_overlap_def chunk_size_def)
  show ?thesis
    using ov by (simp add: chunker_long [OF long] chunker_concat_drop)
qed

text \<open>
  Claim C6. For every text the chunker gives at least one chunk; chunk \<open>i\<close> is the window
  of 1000 characters that starts at character \<open>800 * i\<close>, so the chunks come in source
  order; every chunk but the last has exactly 1000 characters and its last 200 characters
  are the first 200 of the next chunk; a text shorter than 1000 characters gives exactly
  one chunk, the text; and the first chunk followed by the other chunks without their
  first 200 characters is the text.
\<close>

theorem chunker_windows:
  "chunker body \<noteq> []
   \<and> (\<forall>i < length (chunker body). chunker body ! i = take 1000 (drop (800 * i) body))
   \<and> (\<forall>i. Suc i < length (chunker body) \<longrightarrow>
          length (chunker body ! i) = 1000
          \<and> drop 800 (chunker body ! i) = take 200 (chunker body ! Suc i))
   \<and> (length body < 1000 \<longrightarrow> chunker body = [body])
   \<and> hd (chunker body) @ concat (map (drop 200) (tl (chunker body))) = body"
proof -
  have nth: "\<And>i. i < length (chunker body) \<Longrightarrow> chunker body ! i = take 1000 (drop (800 * i) body)"
    using chunker_nth [of _ body] by (simp add: chunk_size_def chunk_overlap_def)
  have overlap: "\<And>i. Suc i < length (chunker body) \<Longrightarrow>
          length (chunker body ! i) = 1000
          \<and> drop 800 (chunker body ! i) = take 200 (chunker body ! Suc i)"
  proof -
    fix i assume i: "Suc i < length (chunker body)"
    then have b: "800 * i + 1000 < length body"
      using chunker_length_bound [of i body] by (simp add: chunk_size_def chunk_overlap_def)
    have c0: "chunker body ! i = take 1000 (drop (800 * i) body)" using nth i by simp
    have c1: "chunker body ! Suc i = take 1000 (drop (800 * Suc i) body)" using nth i by simp
    have "drop (800 * Suc i) body = drop 800 (drop (800 * i) body)"
      by (simp add: add.commute)
    then show "length (chunker body ! i) = 1000
          \<and> drop 800 (chunker body ! i) = take 200 (chunker body ! Suc i)"
      using b by (simp add: c0 c1 drop_take)
  qed
  have short: "length body < 1000 \<longrightarrow> chunker body = [body]"
    by (simp add: chunker_short chunk_size_def)
  have "hd (chunker body) @ concat (map (drop 200) (tl (chunker body))) = body"
    using chunker_reconstruct [of body] by (simp add: chunk_overlap_def)
  then show ?thesis
    using chunker_not_Nil nth overlap short by blast
qed

lemma demo_chunks:
  "chunker demo_text =
     [replicate 900 CHR ''a'' @ replicate 100 CHR ''b'',
      replicate 100 CHR ''a'' @ replicate 900 CHR ''b'',
      replicate 200 CHR ''b'' @ replicate 400 CHR ''c'']"
  by (simp add: chunker.simps chunk_size_def chunk_overlap_def demo_text_def)


theorem chunker_windows_witness:
  "length ''short note'' < 1000 \<and> chunker ''short note'' = [''short note'']
   \<and> Suc 0 < length (chunker demo_text)
   \<and> chunker demo_text ! 0 = take 1000 (drop (800 * 0) demo_text)
   \<and> length (chunker demo_text ! 0) = 1000
   \<and> drop 800 (chunker demo_text ! 0) = take 200 (chunker demo_text ! Suc 0)"
proof -
  have h1: "length ''short note'' < 1000" by simp
  have h2: "Suc 0 < length (chunker demo_text)" by (simp add: demo_chunks)
  have h3: "0 < length (chunker demo_text)" by (simp add: demo_chunks)
  show ?thesis
    using h1 h2 h3 chunker_windows [of "''short note''"] chunker_windows [of demo_text]
    by blast
qed

subsection \<open>Embedding indexer\<close>

text \<open>The table itself does not keep the key unique: two plain inserts of the same
  (entity_type, entity_id, chunk_index) give two rows.\<close>

lemma insert_embedding_keeps_duplicates:
  "map (\<lambda>r. (entity_type r, entity_id r, chunk_index r))
     (emb_rows (insert_embedding (insert_embedding t ety eid idx c v) ety eid idx c' v'))
   = map (\<lambda>r. (entity_type r, entity_id r, chunk_index r)) (emb_rows t)
       @ [(ety, eid, idx), (ety, eid, idx)]"
  by (simp add: insert_embedding_def)

lemma document_rows_insert_embedding:
  "document_rows d (insert_embedding t ''documents'' d i c v) =
     document_rows d t @
       [\<lparr>emb_id = emb_next_id t, entity_type = ''documents'', entity_id = d, chunk_index = i,
         chunk_text = c, embedding_vector = v\<rparr>]"
  by (simp add: document_rows_def insert_embedding_def)

lemma document_rows_insert_embedding_other:
  "d' \<noteq> d \<Longrightarrow> document_rows d' (insert_embedding t ''documents'' d i c v) = document_rows d' t"
  by (simp add: document_rows_def insert_embedding_def)

lemma document_rows_insert_chunks:
  "map (\<lambda>r. (chunk_index r, chunk_text r)) (document_rows d (insert_chunks provider d i cs t)) =
     map (\<lambda>r. (chunk_index r, chunk_text r)) (document_rows d t)
       @ filter (\<lambda>(j, c). provider c \<noteq> None) (zip [i..<i + length cs] cs)"
proof (induction cs arbitrary: i t)
  case Nil
  then show ?case by simp
next
  case (Cons c cs)
  have up: "[i..<Suc (i + length cs)] = i # [Suc i..<Suc (i + length cs)]"
    using upt_conv_Cons [of i "Suc (i + length cs)"] by simp
  show ?case
  proof (cases "provider c")
    case None
    then show ?thesis using Cons.IH [of "Suc i" t] by (simp add: up del: upt_Suc)
  next
    case (Some v)
    then show ?thesis
      using Cons.IH [of "Suc i" "insert_embedding t ''documents'' d i c v"]
      by (simp add: up document_rows_insert_embedding del: upt_Suc)
  qed
qed

lemma document_rows_insert_chunks_other:
  "d' \<noteq> d \<Longrightarrow> document_rows d' (insert_chunks provider d i cs t) = document_rows d' t"
proof (induction cs arbitrary: i t)
  case Nil
  then show ?case by simp
next
  case (Cons c cs)
  then show ?case
    by (cases "provider c") (simp_all add: document_rows_insert_embedding_other)
qed

lemma document_rows_delete: "document_rows d (delete_embeddings t ''documents'' d) = []"
  by (simp add: document_rows_def delete_embeddings_def filter_empty_conv)

lemma document_rows_delete_other:
  "d' \<noteq> d \<Longrightarrow> document_rows d' (delete_embeddings t ''documents'' d) = document_rows d' t"
proof -
  assume ne: "d' \<noteq> d"
  have "filter (\<lambda>r. entity_type r = ''documents'' \<and> entity_id r = d')
          (filter (\<lambda>r. \<not> (entity_type r = ''documents'' \<and> entity_id r = d)) (emb_rows t))
        = filter (\<lambda>r. entity_type r = ''documents'' \<and> entity_id r = d') (emb_rows t)"
    using ne by (auto intro: filter_cong)
  then show ?thesis by (simp add: document_rows_def delete_embeddings_def)
qed

lemma index_document_rows:
  "map (\<lambda>r. (chunk_index r, chunk_text r)) (document_rows d (index_document provider t (d, body))) =
     filter (\<lambda>(j, c). provider c \<noteq> None) (zip [0..<length (chunker body)] (chunker body))"
  using document_rows_insert_chunks [of d provider 0 "chunker body" "delete_embeddings t ''documents'' d"]
  by (simp add: index_document_def document_rows_delete)

lemma index_document_rows_other:
  "d' \<noteq> fst doc \<Longrightarrow> document_rows d' (index_document provider t doc) = document_rows d' t"
  by (simp add: index_document_def document_rows_insert_chunks_other document_rows_delete_other)

lemma document_rows_key:
  "map (\<lambda>r. (entity_type r, entity_id r, chunk_index r)) (document_rows d t) =
     map (\<lambda>r. (''documents'', d, chunk_index r)) (document_rows d t)"
  by (simp add: document_rows_def)

lemma distinct_key_iff:
  "distinct (map (\<lambda>r. (entity_type r, entity_id r, chunk_index r)) (document_rows d t))
     \<longleftrightarrow> distinct (map chunk_index (document_rows d t))"
proof -
  have "map (\<lambda>r. (''documents'', d, chunk_index r)) (document_rows d t)
      = map (\<lambda>i. (''documents'', d, i)) (map chunk_index (document_rows d t))"
    by simp
  moreover have "inj (\<lambda>i :: nat. (''documents'', d, i))"
    by (simp add: inj_on_def)
  ultimately show ?thesis
    by (simp only: document_rows_key distinct_map) (auto simp: inj_on_def distinct_map)
qed

lemma index_document_distinct:
  "distinct (map chunk_index (document_rows d (index_document provider t (d, body))))"
proof -
  let ?zs = "filter (\<lambda>(j, c). provider c \<noteq> None) (zip [0..<length (chunker body)] (chunker body))"
  have "map chunk_index (document_rows d (index_document provider t (d, body)))
      = map fst (map (\<lambda>r. (chunk_index r, chunk_text r)) (document_rows d (index_document provider t (d, body))))"
    by (simp add: comp_def)
  also have "\<dots> = map fst ?zs"
    by (simp only: index_document_rows)
  finally have eq: "map chunk_index (document_rows d (index_document provider t (d, body))) = map fst ?zs" .
  have "distinct (map fst (zip [0..<length (chunker body)] (chunker body)))"
    by simp
  then have "distinct (map fst ?zs)"
    by (rule distinct_map_filter)
  then show ?thesis by (simp only: eq)
qed

lemma index_documents_distinct:
  "d \<in> fst ` set docs \<Longrightarrow>
     distinct (map chunk_index (document_rows d (index_documents provider t docs)))"
proof (induction docs rule: rev_induct)
  case Nil
  then show ?case by simp
next
  case (snoc doc docs)
  have step: "index_documents provider t (docs @ [doc])
      = index_document provider (index_documents provider t docs) doc"
    by (simp add: index_documents_def)
  show ?case
  proof (cases "fst doc = d")
    case True
    then have "doc = (d, snd doc)" by auto
    then show ?thesis
      using index_document_distinct [of d provider "index_documents provider t docs" "snd doc"]
      by (simp add: step)
  next
    case False
    then have "d \<in> fst ` set docs" using snoc.prems by auto
    then show ?thesis
      using snoc.IH False by (simp add: step index_document_rows_other)
  qed
qed

text \<open>
  Claim C7. Indexing a document, whatever rows the table held for it before, leaves for
  that document exactly the rows of its current chunks (index and text of every chunk
  the provider embedded, in order): the prior rows are replaced. After a batch, every
  document of the batch has at most one row per (entity_type, entity_id, chunk_index).
\<close>

theorem reindex_replaces_chunks:
  "map (\<lambda>r. (chunk_index r, chunk_text r)) (document_rows d (index_document provider t (d, body)))
     = filter (\<lambda>(i, c). provider c \<noteq> None) (zip [0..<length (chunker body)] (chunker body))
   \<and> (d \<in> fst ` set docs \<longrightarrow>
        distinct (map (\<lambda>r. (entity_type r, entity_id r, chunk_index r))
          (document_rows d (index_documents provider t docs))))"
  using index_document_rows [of d provider t body] index_documents_distinct [of d docs provider t]
  by (simp only: distinct_key_iff) blast


theorem reindex_replaces_chunks_witness:
  "(7 :: nat) \<in> fst ` set [(7, ''short note'')]
   \<and> length (document_rows 7 demo_table) = 2
   \<and> map (\<lambda>r. (chunk_index r, chunk_text r))
         (document_rows 7 (index_document demo_provider demo_table (7, ''short note'')))
       = [(0, ''short note'')]
   \<and> distinct (map (\<lambda>r. (entity_type r, entity_id r, chunk_index r))
         (document_rows 7 (index_documents demo_provider demo_table [(7, ''short note'')])))"
proof -
  have h: "(7 :: nat) \<in> fst ` set [(7, ''short note'')]" by simp
  have c: "chunker ''short note'' = [''short note'']"
    by (simp add: chunker_short chunk_size_def)
  have n: "length (document_rows 7 demo_table) = 2"
    by (simp add: document_rows_def demo_table_def)
  show ?thesis
    using h n
      reindex_replaces_chunks [of 7 demo_provider demo_table "''short note''" "[(7, ''short note'')]"]
    by (simp add: c demo_provider_def)
qed

subsection \<open>The document listing\<close>










end
